theory Spec2Isabelle
  imports Main "HOL-Library.AList" "HOL-Library.Product_Lexorder" "HOL-Library.Multiset"
begin

section \<open>Data model\<close>

text \<open>
  The embedding follows the latest revision of \<^verbatim>\<open>src/src/App.jsx\<close> (the component that
  starts with the \<^verbatim>\<open>DEFAULT_MATRICES\<close> constant). Tasks and matrices are plain objects there;
  they become records whose optional fields are \<open>option\<close>s. A field that fails the source's
  \<^verbatim>\<open>typeof t.order === "number"\<close> test is \<open>None\<close>. An urgency is one of the four strings
  of \<^verbatim>\<open>urgencyLevels\<close> and a status one of the four strings the source writes and tests
  ("Not Done", "Completed", "Archived", "Deleted"); ids are numbers, as \<^verbatim>\<open>Date.now()\<close>
  gives them. The task list and the matrix list are lists, as in the source: nothing in
  the types makes ids unique.
\<close>

datatype urgency = High | Medium | Low | NoUrgency

definition urgencyLevels :: "urgency list" where
  "urgencyLevels = [High, Medium, Low, NoUrgency]"

fun urgencyStr :: "urgency \<Rightarrow> string" where
  "urgencyStr High = ''High''"
| "urgencyStr Medium = ''Medium''"
| "urgencyStr Low = ''Low''"
| "urgencyStr NoUrgency = ''None''"

datatype status = NotDone | Completed | Archived | Deleted

record task =
  t_id :: int
  t_text :: string
  t_matrixId :: "string option"
  t_tag :: "string option"
  t_urgency :: urgency
  t_status :: status
  t_order :: "int option"
  t_createdAt :: "string option"
  t_archivedAt :: "string option"
  t_deletedAt :: "string option"

record matrix =
  m_id :: string
  m_name :: string
  m_pinned :: bool

record new_task =
  nt_text :: string
  nt_matrixId :: string
  nt_urgency :: urgency

text \<open>The \<^verbatim>\<open>useState\<close> cells of the \<^verbatim>\<open>App\<close> component.\<close>

record app_state =
  tasks :: "task list"
  matrices :: "matrix list"
  activePinnedIds :: "string list"
  focusMatrixId :: string
  viewOrderIds :: "string list"
  lastSelectedMatrixId :: string
  newTask :: new_task
  importError :: string
  importOk :: string
  editingTaskId :: "int option"
  editDraft :: string

definition DEFAULT_MATRICES :: "matrix list" where
  "DEFAULT_MATRICES =
     [\<lparr>m_id = ''work'', m_name = ''Work'', m_pinned = True\<rparr>,
      \<lparr>m_id = ''personal'', m_name = ''Personal'', m_pinned = True\<rparr>,
      \<lparr>m_id = ''goals'', m_name = ''Goals'', m_pinned = True\<rparr>]"

section \<open>Helpers\<close>

text \<open>
  \<^verbatim>\<open>String.prototype.trim\<close>, on the ASCII white space and line terminators
  (tab, line feed, vertical tab, form feed, carriage return, space).
\<close>

definition isSpace :: "char \<Rightarrow> bool" where
  "isSpace c \<longleftrightarrow> c \<in> set [CHR 0x09, CHR 0x0A, CHR 0x0B, CHR 0x0C, CHR 0x0D, CHR 0x20]"

definition trim :: "string \<Rightarrow> string" where
  "trim s = rev (dropWhile isSpace (rev (dropWhile isSpace s)))"

text \<open>JavaScript truthiness of a string-valued field that may be absent.\<close>

definition truthy :: "string option \<Rightarrow> bool" where
  "truthy x = (case x of None \<Rightarrow> False | Some s \<Rightarrow> s \<noteq> [])"

text \<open>
  An insertion-ordered \<^verbatim>\<open>Set\<close>: \<^verbatim>\<open>add\<close> appends a new element and ignores one that is
  already present; \<^verbatim>\<open>new Set(xs)\<close> adds the elements of \<open>xs\<close> from left to right.
\<close>

definition setAdd :: "'a list \<Rightarrow> 'a \<Rightarrow> 'a list" where
  "setAdd S x = (if x \<in> set S then S else S @ [x])"

definition newSet :: "'a list \<Rightarrow> 'a list" where
  "newSet xs = fold (\<lambda>x S. setAdd S x) xs []"

text \<open>
  \<^verbatim>\<open>xs.forEach((id, idx) => map.set(id, idx))\<close>: a later entry with the same key
  overwrites an earlier one.
\<close>

fun setIndexed :: "('k \<rightharpoonup> nat) \<Rightarrow> 'k list \<Rightarrow> nat \<Rightarrow> ('k \<rightharpoonup> nat)" where
  "setIndexed upd [] idx = upd"
| "setIndexed upd (x # xs) idx = setIndexed (upd(x \<mapsto> idx)) xs (Suc idx)"

text \<open>\<^verbatim>\<open>Array.prototype.indexOf\<close>, with \<open>None\<close> for \<^verbatim>\<open>-1\<close>.\<close>

fun indexOf :: "'a list \<Rightarrow> 'a \<Rightarrow> nat option" where
  "indexOf [] x = None"
| "indexOf (y # ys) x = (if y = x then Some 0 else map_option Suc (indexOf ys x))"

section \<open>Schema and migration\<close>

text \<open>
  \<^verbatim>\<open>ensureDefaultPinnedMatrices\<close>. The \<^verbatim>\<open>Map\<close> keeps its keys in insertion order and
  \<^verbatim>\<open>set\<close> on an existing key replaces the value in place, which is \<^const>\<open>AList.update\<close>.
\<close>

definition ensureStep :: "matrix \<Rightarrow> (string \<times> matrix) list \<Rightarrow> (string \<times> matrix) list" where
  "ensureStep m byId =
     (case map_of byId (m_id m) of
        None \<Rightarrow> AList.update (m_id m) m byId
      | Some existing \<Rightarrow>
          AList.update (m_id m) (existing\<lparr>m_name := m_name m, m_pinned := True\<rparr>) byId)"

definition ensureDefaultPinnedMatrices :: "matrix list \<Rightarrow> matrix list" where
  "ensureDefaultPinnedMatrices list =
     (let byId = fold (\<lambda>m acc. AList.update (m_id m) m acc) list []
      in map snd (fold ensureStep DEFAULT_MATRICES byId))"

text \<open>The callback of the first \<^verbatim>\<open>map\<close> in \<^verbatim>\<open>migrateTasks\<close>: the legacy tag lookup.\<close>

definition migrateTag :: "task \<Rightarrow> task" where
  "migrateTag t =
     (if truthy (t_matrixId t) then t
      else
        let tag = t_tag t;
            matrixId0 = ''work'';
            matrixId1 = (if tag = Some ''Personal'' then ''personal'' else matrixId0);
            matrixId2 = (if tag = Some ''Goals'' then ''goals'' else matrixId1);
            rest = t\<lparr>t_tag := None\<rparr>
        in rest\<lparr>t_matrixId := Some matrixId2\<rparr>)"

text \<open>The counter key \<^verbatim>\<open>`${t.matrixId}__${t.urgency}`\<close>.\<close>

definition scopeKey :: "task \<Rightarrow> string" where
  "scopeKey t =
     (case t_matrixId t of None \<Rightarrow> ''undefined'' | Some m \<Rightarrow> m) @ ''__'' @ urgencyStr (t_urgency t)"

text \<open>The second \<^verbatim>\<open>map\<close> of \<^verbatim>\<open>migrateTasks\<close>, threading the \<^verbatim>\<open>counters\<close> map.\<close>

fun backfill :: "(string \<rightharpoonup> int) \<Rightarrow> task list \<Rightarrow> task list" where
  "backfill counters [] = []"
| "backfill counters (t # ts) =
     (let key = scopeKey t;
          next = (case counters key of None \<Rightarrow> 0 | Some n \<Rightarrow> n)
      in t\<lparr>t_order := Some next\<rparr> # backfill (counters(key \<mapsto> next + 1)) ts)"

definition migrateTasks :: "task list \<Rightarrow> task list" where
  "migrateTasks allTasks =
     (let migrated = map migrateTag allTasks;
          hasAnyOrder = list_ex (\<lambda>t. t_order t \<noteq> None) migrated
      in if hasAnyOrder then migrated else backfill Map.empty migrated)"

section \<open>Ordering engine\<close>

text \<open>The filter shared by the ordering helpers: live tasks of one (matrix, urgency) scope.\<close>

definition inScope :: "string option \<Rightarrow> urgency \<Rightarrow> task \<Rightarrow> bool" where
  "inScope matrixId urg t \<longleftrightarrow>
     t_matrixId t = matrixId \<and> t_urgency t = urg \<and>
     t_status t \<noteq> Archived \<and> t_status t \<noteq> Deleted"

text \<open>\<^verbatim>\<open>typeof a.order === "number" ? a.order : 0\<close>\<close>

definition orderOr0 :: "task \<Rightarrow> int" where
  "orderOr0 t = (case t_order t of Some n \<Rightarrow> n | None \<Rightarrow> 0)"

text \<open>The comparator that \<^verbatim>\<open>normalizeOrders\<close> and the reorder branch pass to \<^verbatim>\<open>sort\<close>.\<close>

definition compareTasks :: "task \<Rightarrow> task \<Rightarrow> int" where
  "compareTasks a b =
     (let ao = orderOr0 a; bo = orderOr0 b
      in if ao \<noteq> bo then ao - bo else t_id a - t_id b)"

text \<open>
  The comparator orders by \<^verbatim>\<open>order\<close> and then by \<^verbatim>\<open>id\<close>; that is the lexicographic
  order on the pair (lemma \<open>compareTasks_key\<close> below). \<^verbatim>\<open>Array.prototype.sort\<close> is
  stable, as is \<^const>\<open>sort_key\<close>.
\<close>

definition canonicalGroup :: "task list \<Rightarrow> string option \<Rightarrow> urgency \<Rightarrow> task list" where
  "canonicalGroup allTasks matrixId urg =
     sort_key (\<lambda>t. (orderOr0 t, t_id t)) (filter (inScope matrixId urg) allTasks)"

definition getNextOrder :: "task list \<Rightarrow> string option \<Rightarrow> urgency \<Rightarrow> int" where
  "getNextOrder allTasks matrixId urg =
     fold (\<lambda>t m. case t_order t of Some n \<Rightarrow> max m n | None \<Rightarrow> m)
       (filter (\<lambda>t. inScope matrixId urg t \<and> t_order t \<noteq> None) allTasks) (- 1) + 1"

definition applyOrders :: "(int \<rightharpoonup> nat) \<Rightarrow> task list \<Rightarrow> task list" where
  "applyOrders updates allTasks =
     map (\<lambda>t. case updates (t_id t) of
                 Some idx \<Rightarrow> t\<lparr>t_order := Some (int idx)\<rparr>
               | None \<Rightarrow> t) allTasks"

definition normalizeOrders :: "task list \<Rightarrow> string option \<Rightarrow> urgency \<Rightarrow> task list" where
  "normalizeOrders allTasks matrixId urg =
     (let group = canonicalGroup allTasks matrixId urg;
          updates = setIndexed Map.empty (map t_id group) 0
      in applyOrders updates allTasks)"

text \<open>
  \<^verbatim>\<open>arrayMove\<close>. \<^verbatim>\<open>splice(from, 1)\<close> removes the element at \<open>from\<close> when there is one,
  and the destructuring \<^verbatim>\<open>[removed]\<close> reads \<^verbatim>\<open>undefined\<close> otherwise; the result is
  therefore a list of optional elements, \<open>None\<close> standing for \<^verbatim>\<open>undefined\<close>.
  \<^verbatim>\<open>splice(to, 0, removed)\<close> inserts at \<open>to\<close>, clamped to the length.
\<close>

definition arrayMove :: "'a list \<Rightarrow> nat \<Rightarrow> nat \<Rightarrow> 'a option list" where
  "arrayMove items from to =
     (let removed = (if from < length items then Some (items ! from) else None);
          next = map Some (take from items @ drop (Suc from) items)
      in take to next @ [removed] @ drop to next)"

section \<open>View composition\<close>

text \<open>The memo \<^verbatim>\<open>selectedMatrixIds\<close>, as a function of the four cells it reads.\<close>

definition selectedMatrixIds ::
  "matrix list \<Rightarrow> string list \<Rightarrow> string \<Rightarrow> string list \<Rightarrow> string list" where
  "selectedMatrixIds ms activePinned focus viewOrder =
     (let validIds = map m_id ms;
          activeSet0 = newSet activePinned;
          activeSet = (if focus \<noteq> ''none'' then setAdd activeSet0 focus else activeSet0);
          ordered0 = filter (\<lambda>i. i \<in> set activeSet) (filter (\<lambda>i. i \<in> set validIds) viewOrder)
      in fold (\<lambda>i ordered.
                 if i \<in> set validIds \<and> i \<notin> set ordered then ordered @ [i] else ordered)
           activeSet ordered0)"

definition selectedOf :: "app_state \<Rightarrow> string list" where
  "selectedOf s =
     selectedMatrixIds (matrices s) (activePinnedIds s) (focusMatrixId s) (viewOrderIds s)"

text \<open>The click handler of a pinned-matrix chip.\<close>

definition togglePinned :: "app_state \<Rightarrow> string \<Rightarrow> app_state" where
  "togglePinned s mid =
     (let willBeActive = (mid \<notin> set (activePinnedIds s));
          prevA = activePinnedIds s;
          nextA = (if mid \<in> set prevA then filter (\<lambda>i. i \<noteq> mid) prevA else prevA @ [mid]);
          prevV = viewOrderIds s;
          nextV = (if willBeActive then filter (\<lambda>i. i \<noteq> mid) prevV @ [mid]
                   else filter (\<lambda>i. i \<noteq> mid) prevV)
      in s\<lparr>activePinnedIds := nextA, viewOrderIds := nextV,
            lastSelectedMatrixId := (if willBeActive then mid else lastSelectedMatrixId s)\<rparr>)"

text \<open>
  The change handler of the focus selector. Its de-duplicating filter keeps the first
  occurrence of each id other than \<^verbatim>\<open>"none"\<close>.
\<close>

definition changeFocus :: "app_state \<Rightarrow> string \<Rightarrow> app_state" where
  "changeFocus s next =
     (let prevFocus = focusMatrixId s;
          prev = viewOrderIds s;
          nextOrder = filter (\<lambda>i. i \<noteq> prevFocus) prev;
          newView =
            (if next = ''none'' then nextOrder
             else case indexOf prev prevFocus of
                    Some prevIdx \<Rightarrow>
                      (if prevFocus \<noteq> ''none''
                       then newSet (filter (\<lambda>i. i \<noteq> ''none'') (prev[prevIdx := next]))
                       else (if next \<notin> set nextOrder then nextOrder @ [next] else nextOrder))
                  | None \<Rightarrow> (if next \<notin> set nextOrder then nextOrder @ [next] else nextOrder))
      in s\<lparr>focusMatrixId := next, viewOrderIds := newView,
            lastSelectedMatrixId := (if next \<noteq> ''none'' then next else lastSelectedMatrixId s)\<rparr>)"

section \<open>Mutation operations\<close>

text \<open>
  \<^verbatim>\<open>Date.now()\<close> and \<^verbatim>\<open>new Date().toISOString()\<close> are read from the environment; the
  operations take them as the arguments \<open>now\<close> and \<open>isoNow\<close>.
\<close>

definition mergeMatrixInto :: "app_state \<Rightarrow> string \<Rightarrow> string \<Rightarrow> app_state" where
  "mergeMatrixInto s sourceId destId =
     (if sourceId = [] \<or> sourceId = ''none'' then s
      else if destId = [] \<or> sourceId = destId then s
      else
        let moved = map (\<lambda>t. if t_matrixId t = Some sourceId
                              then t\<lparr>t_matrixId := Some destId\<rparr> else t) (tasks s);
            next = fold (\<lambda>u next. normalizeOrders next (Some destId) u) urgencyLevels moved
        in s\<lparr>tasks := next,
              matrices := filter (\<lambda>m. m_id m \<noteq> sourceId) (matrices s),
              focusMatrixId := ''none'',
              viewOrderIds := filter (\<lambda>i. i \<noteq> sourceId) (viewOrderIds s),
              lastSelectedMatrixId := destId\<rparr>)"

definition deleteMatrixArchiveTasks :: "app_state \<Rightarrow> string \<Rightarrow> string \<Rightarrow> app_state" where
  "deleteMatrixArchiveTasks s matrixId isoNow =
     (if matrixId = [] \<or> matrixId = ''none'' then s
      else
        let fallback = (case activePinnedIds s of [] \<Rightarrow> ''work'' | x # _ \<Rightarrow> x)
        in s\<lparr>tasks := map (\<lambda>t. if t_matrixId t = Some matrixId \<and> t_status t \<noteq> Deleted
                                 then t\<lparr>t_status := Archived, t_archivedAt := Some isoNow\<rparr>
                                 else t) (tasks s),
              matrices := filter (\<lambda>m. m_id m \<noteq> matrixId) (matrices s),
              focusMatrixId := ''none'',
              viewOrderIds := filter (\<lambda>i. i \<noteq> matrixId) (viewOrderIds s),
              lastSelectedMatrixId := fallback\<rparr>)"

definition addTask :: "app_state \<Rightarrow> int \<Rightarrow> string \<Rightarrow> app_state" where
  "addTask s now isoNow =
     (if trim (nt_text (newTask s)) = [] then s
      else
        let nextOrder = getNextOrder (tasks s) (Some (nt_matrixId (newTask s)))
                          (nt_urgency (newTask s))
        in s\<lparr>tasks := tasks s @
                [\<lparr>t_id = now, t_text = nt_text (newTask s),
                  t_matrixId = Some (nt_matrixId (newTask s)), t_tag = None,
                  t_urgency = nt_urgency (newTask s), t_status = NotDone,
                  t_order = Some nextOrder, t_createdAt = Some isoNow,
                  t_archivedAt = None, t_deletedAt = None\<rparr>],
              newTask := \<lparr>nt_text = [], nt_matrixId = nt_matrixId (newTask s),
                          nt_urgency = Medium\<rparr>\<rparr>)"

definition toggleComplete :: "app_state \<Rightarrow> int \<Rightarrow> app_state" where
  "toggleComplete s i =
     s\<lparr>tasks := map (\<lambda>t. if t_id t = i
                          then t\<lparr>t_status := (if t_status t = Completed then NotDone
                                               else Completed)\<rparr>
                          else t) (tasks s)\<rparr>"

definition archiveTask :: "app_state \<Rightarrow> int \<Rightarrow> string \<Rightarrow> app_state" where
  "archiveTask s i isoNow =
     s\<lparr>tasks := map (\<lambda>t. if t_id t = i
                          then t\<lparr>t_status := Archived, t_archivedAt := Some isoNow\<rparr>
                          else t) (tasks s)\<rparr>"

definition unarchiveTask :: "app_state \<Rightarrow> int \<Rightarrow> app_state" where
  "unarchiveTask s i =
     s\<lparr>tasks := map (\<lambda>t. if t_id t = i
                          then t\<lparr>t_status := NotDone, t_archivedAt := None\<rparr>
                          else t) (tasks s)\<rparr>"

definition deleteTask :: "app_state \<Rightarrow> int \<Rightarrow> string \<Rightarrow> app_state" where
  "deleteTask s i isoNow =
     (let s1 = (if editingTaskId s = Some i
                then s\<lparr>editingTaskId := None, editDraft := []\<rparr> else s)
      in s1\<lparr>tasks := map (\<lambda>t. if t_id t = i
                               then t\<lparr>t_status := Deleted, t_deletedAt := Some isoNow\<rparr>
                               else t) (tasks s)\<rparr>)"

definition cancelEdit :: "app_state \<Rightarrow> app_state" where
  "cancelEdit s = s\<lparr>editingTaskId := None, editDraft := []\<rparr>"

definition commitEdit :: "app_state \<Rightarrow> app_state" where
  "commitEdit s =
     (case editingTaskId s of
        None \<Rightarrow> s
      | Some eid \<Rightarrow>
          let nextText = trim (editDraft s)
          in if nextText = [] then cancelEdit s
             else s\<lparr>tasks := map (\<lambda>t. if t_id t = eid then t\<lparr>t_text := nextText\<rparr> else t)
                               (tasks s),
                    editingTaskId := None, editDraft := []\<rparr>)"

text \<open>The "clear deleted" button of the history view.\<close>

definition clearDeleted :: "app_state \<Rightarrow> app_state" where
  "clearDeleted s = s\<lparr>tasks := filter (\<lambda>t. t_status t \<noteq> Deleted) (tasks s)\<rparr>"

section \<open>Drag-and-drop interpreter\<close>

text \<open>
  A drop target is a quadrant (its id is one of \<^verbatim>\<open>urgencyLevels\<close>) or a task row (its id
  is the task's id); \<open>None\<close> is a drop with no \<^verbatim>\<open>over\<close> target.
\<close>

datatype over_id = OverQuadrant urgency | OverTask int

definition getTaskById :: "task list \<Rightarrow> int \<Rightarrow> task option" where
  "getTaskById ts i = find (\<lambda>t. t_id t = i) ts"

text \<open>The updater shared by the two cross-quadrant branches.\<close>

definition moveToUrgency :: "task list \<Rightarrow> int \<Rightarrow> task \<Rightarrow> urgency \<Rightarrow> task list" where
  "moveToUrgency prev activeId activeTask urg =
     (let nextOrder = getNextOrder prev (t_matrixId activeTask) urg;
          moved = map (\<lambda>t. if t_id t = activeId
                            then t\<lparr>t_urgency := urg, t_order := Some nextOrder\<rparr> else t) prev
      in normalizeOrders moved (t_matrixId activeTask) (t_urgency activeTask))"

text \<open>The updater of the reorder branch.\<close>

definition reorderWithin :: "task list \<Rightarrow> int \<Rightarrow> int \<Rightarrow> task \<Rightarrow> task list" where
  "reorderWithin prev activeId overId activeTask =
     (let group = canonicalGroup prev (t_matrixId activeTask) (t_urgency activeTask);
          ids = map t_id group
      in case (indexOf ids activeId, indexOf ids overId) of
           (Some oldIndex, Some newIndex) \<Rightarrow>
             (let movedIds = arrayMove ids oldIndex newIndex;
                  orderMap = setIndexed Map.empty movedIds 0
              in applyOrders (\<lambda>i. orderMap (Some i)) prev)
         | _ \<Rightarrow> prev)"

definition handleDragEnd :: "app_state \<Rightarrow> int \<Rightarrow> over_id option \<Rightarrow> app_state" where
  "handleDragEnd s activeId over =
     (case over of
        None \<Rightarrow> s
      | Some overId \<Rightarrow>
          (case getTaskById (tasks s) activeId of
             None \<Rightarrow> s
           | Some activeTask \<Rightarrow>
               if \<not> (case t_matrixId activeTask of
                        None \<Rightarrow> False | Some m \<Rightarrow> m \<in> set (selectedOf s)) then s
               else
                 (case overId of
                    OverQuadrant urg \<Rightarrow>
                      if t_urgency activeTask = urg then s
                      else s\<lparr>tasks := moveToUrgency (tasks s) activeId activeTask urg\<rparr>
                  | OverTask oid \<Rightarrow>
                      (case getTaskById (tasks s) oid of
                         None \<Rightarrow> s
                       | Some overTask \<Rightarrow>
                           if t_matrixId overTask \<noteq> t_matrixId activeTask then s
                           else if t_urgency overTask \<noteq> t_urgency activeTask
                           then s\<lparr>tasks := moveToUrgency (tasks s) activeId activeTask
                                             (t_urgency overTask)\<rparr>
                           else if activeId = oid then s
                           else s\<lparr>tasks := reorderWithin (tasks s) activeId oid
                                             activeTask\<rparr>))))"

section \<open>Import\<close>

text \<open>
  What \<^verbatim>\<open>importDataFromFile\<close> inspects of the file: whether \<^verbatim>\<open>JSON.parse\<close> throws (with
  the message of the exception), whether the parsed value is falsy, whether it is an object,
  and whether each of its two fields passes \<^verbatim>\<open>Array.isArray\<close> (\<open>None\<close> when it does
  not, or is absent).
\<close>

datatype parsed = Falsy | NonObject | JObject "matrix list option" "task list option"

datatype file_input = Unparsable string | Parsed parsed

definition importFail :: "app_state \<Rightarrow> string \<Rightarrow> app_state" where
  "importFail s msg = s\<lparr>importError := (if msg = [] then ''Import failed.'' else msg)\<rparr>"

definition importDataFromFile :: "app_state \<Rightarrow> file_input \<Rightarrow> app_state" where
  "importDataFromFile s inp =
     (let s0 = s\<lparr>importError := [], importOk := []\<rparr>
      in case inp of
           Unparsable msg \<Rightarrow> importFail s0 msg
         | Parsed Falsy \<Rightarrow> importFail s0 ''Invalid file format.''
         | Parsed NonObject \<Rightarrow> importFail s0 ''Invalid file format.''
         | Parsed (JObject incomingMatrices incomingTasks) \<Rightarrow>
             (case (incomingMatrices, incomingTasks) of
                (Some ims, Some its) \<Rightarrow>
                  (let normalizedMatrices = ensureDefaultPinnedMatrices ims;
                       migratedTasks = migrateTasks its;
                       pinned = map m_id (filter m_pinned normalizedMatrices);
                       first = (case pinned of [] \<Rightarrow> ''work'' | x # _ \<Rightarrow> x)
                   in s0\<lparr>matrices := normalizedMatrices, tasks := migratedTasks,
                          activePinnedIds := pinned, viewOrderIds := pinned,
                          focusMatrixId := ''none'', lastSelectedMatrixId := first,
                          newTask := (newTask s0)\<lparr>nt_matrixId := first\<rparr>,
                          importOk := ''Imported successfully.''\<rparr>)
              | _ \<Rightarrow> importFail s0
                       ''Import file must include both 'matrices' and 'tasks' arrays.''))"

section \<open>Events\<close>

text \<open>The change handlers of the three inputs of the new-task form.\<close>

definition setDraftText :: "app_state \<Rightarrow> string \<Rightarrow> app_state" where
  "setDraftText s txt = s\<lparr>newTask := (newTask s)\<lparr>nt_text := txt\<rparr>\<rparr>"

definition setDraftMatrix :: "app_state \<Rightarrow> string \<Rightarrow> app_state" where
  "setDraftMatrix s mid =
     s\<lparr>newTask := (newTask s)\<lparr>nt_matrixId := mid\<rparr>, lastSelectedMatrixId := mid\<rparr>"

definition setDraftUrgency :: "app_state \<Rightarrow> urgency \<Rightarrow> app_state" where
  "setDraftUrgency s urg = s\<lparr>newTask := (newTask s)\<lparr>nt_urgency := urg\<rparr>\<rparr>"

text \<open>
  The two effects that run after a render once the component is initialised: the focus
  falls back to "none" when its matrix no longer exists, and an empty draft follows the
  last selected matrix.
\<close>

definition focusEffect :: "app_state \<Rightarrow> app_state" where
  "focusEffect s =
     (if focusMatrixId s = ''none'' then s
      else if list_ex (\<lambda>m. m_id m = focusMatrixId s) (matrices s) then s
      else s\<lparr>focusMatrixId := ''none'',
             viewOrderIds := filter (\<lambda>i. i \<noteq> focusMatrixId s) (viewOrderIds s)\<rparr>)"

definition draftEffect :: "app_state \<Rightarrow> app_state" where
  "draftEffect s =
     (if trim (nt_text (newTask s)) \<noteq> [] then s
      else if nt_matrixId (newTask s) = lastSelectedMatrixId s then s
      else s\<lparr>newTask := (newTask s)\<lparr>nt_matrixId := lastSelectedMatrixId s\<rparr>\<rparr>)"

text \<open>
  One user event is one handler followed by the effects; a session is a list of events.
\<close>

datatype action =
    SetDraftText string
  | SetDraftMatrix string
  | SetDraftUrgency urgency
  | AddTask int string
  | DragEnd int "over_id option"
  | MergeMatrixInto string string
  | TogglePinned string
  | ChangeFocus string

fun handle :: "app_state \<Rightarrow> action \<Rightarrow> app_state" where
  "handle s (SetDraftText txt) = setDraftText s txt"
| "handle s (SetDraftMatrix mid) = setDraftMatrix s mid"
| "handle s (SetDraftUrgency urg) = setDraftUrgency s urg"
| "handle s (AddTask now isoNow) = addTask s now isoNow"
| "handle s (DragEnd activeId over) = handleDragEnd s activeId over"
| "handle s (MergeMatrixInto sourceId destId) = mergeMatrixInto s sourceId destId"
| "handle s (TogglePinned mid) = togglePinned s mid"
| "handle s (ChangeFocus next) = changeFocus s next"

definition step :: "app_state \<Rightarrow> action \<Rightarrow> app_state" where
  "step s a = draftEffect (focusEffect (handle s a))"

definition run :: "app_state \<Rightarrow> action list \<Rightarrow> app_state" where
  "run s acts = foldl step s acts"

section \<open>Specification-level notions and example data\<close>

text \<open>
  An import input is malformed when it does not parse, when the parsed value is not an
  object, or when one of its two fields is not an array.
\<close>

definition malformed :: "file_input \<Rightarrow> bool" where
  "malformed inp =
     (case inp of
        Unparsable msg \<Rightarrow> True
      | Parsed Falsy \<Rightarrow> True
      | Parsed NonObject \<Rightarrow> True
      | Parsed (JObject ms ts) \<Rightarrow> ms = None \<or> ts = None)"

definition mkTask :: "int \<Rightarrow> string \<Rightarrow> string \<Rightarrow> urgency \<Rightarrow> status \<Rightarrow> int \<Rightarrow> task" where
  "mkTask i txt m u st ord =
     \<lparr>t_id = i, t_text = txt, t_matrixId = Some m, t_tag = None, t_urgency = u,
      t_status = st, t_order = Some ord, t_createdAt = None, t_archivedAt = None,
      t_deletedAt = None\<rparr>"

text \<open>
  Three live tasks A, B, C in (work, High) with orders 0, 1, 2, one live task in
  (personal, High) and one archived task in (work, Medium); all three default matrices
  are selected.
\<close>

definition exampleTasks :: "task list" where
  "exampleTasks =
     [mkTask 1 ''A'' ''work'' High NotDone 0,
      mkTask 2 ''B'' ''work'' High NotDone 1,
      mkTask 3 ''C'' ''work'' High Completed 2,
      mkTask 4 ''D'' ''personal'' High NotDone 0,
      mkTask 5 ''E'' ''work'' Medium Archived 0]"

definition exampleState :: app_state where
  "exampleState =
     \<lparr>tasks = exampleTasks, matrices = DEFAULT_MATRICES,
      activePinnedIds = [''work'', ''personal'', ''goals''], focusMatrixId = ''none'',
      viewOrderIds = [''work'', ''personal'', ''goals''], lastSelectedMatrixId = ''work'',
      newTask = \<lparr>nt_text = [], nt_matrixId = ''work'', nt_urgency = Medium\<rparr>,
      importError = [], importOk = [], editingTaskId = None, editDraft = []\<rparr>"

text \<open>
  The fixed lookup of the specification for a legacy tag: "Personal" gives "personal",
  "Goals" gives "goals", anything else (or no tag) gives "work".
\<close>

definition legacyMatrixId :: "string option \<Rightarrow> string" where
  "legacyMatrixId tag =
     (if tag = Some ''Personal'' then ''personal''
      else if tag = Some ''Goals'' then ''goals'' else ''work'')"

text \<open>Five legacy tasks: tags Personal, Goals, an unknown tag, no tag, Personal again.\<close>

definition legacyTasks :: "task list" where
  "legacyTasks =
     [\<lparr>t_id = 1, t_text = ''p'', t_matrixId = None, t_tag = Some ''Personal'',
       t_urgency = High, t_status = NotDone, t_order = None, t_createdAt = None,
       t_archivedAt = None, t_deletedAt = None\<rparr>,
      \<lparr>t_id = 2, t_text = ''g'', t_matrixId = None, t_tag = Some ''Goals'',
       t_urgency = High, t_status = NotDone, t_order = None, t_createdAt = None,
       t_archivedAt = None, t_deletedAt = None\<rparr>,
      \<lparr>t_id = 3, t_text = ''w'', t_matrixId = None, t_tag = Some ''Chores'',
       t_urgency = High, t_status = NotDone, t_order = None, t_createdAt = None,
       t_archivedAt = None, t_deletedAt = None\<rparr>,
      \<lparr>t_id = 4, t_text = ''n'', t_matrixId = None, t_tag = None,
       t_urgency = High, t_status = NotDone, t_order = None, t_createdAt = None,
       t_archivedAt = None, t_deletedAt = None\<rparr>,
      \<lparr>t_id = 5, t_text = ''q'', t_matrixId = None, t_tag = Some ''Personal'',
       t_urgency = High, t_status = Completed, t_order = None, t_createdAt = None,
       t_archivedAt = None, t_deletedAt = None\<rparr>]"

text \<open>
  The \<^verbatim>\<open>Map\<close> that \<^verbatim>\<open>ensureDefaultPinnedMatrices\<close> builds first, the property that every
  value sits under its own id, and the matrices whose id is not a default id.
\<close>

definition keyed :: "(string \<times> matrix) list \<Rightarrow> bool" where
  "keyed al \<longleftrightarrow> list_all (\<lambda>p. m_id (snd p) = fst p) al"

definition byId :: "matrix list \<Rightarrow> (string \<times> matrix) list" where
  "byId list = fold (\<lambda>m acc. AList.update (m_id m) m acc) list []"

definition nonDefault :: "matrix \<Rightarrow> bool" where
  "nonDefault m \<longleftrightarrow> m_id m \<notin> set (map m_id DEFAULT_MATRICES)"

text \<open>A stored list: a default id with a stale name and pin, and two other matrices.\<close>

definition storedMatrices :: "matrix list" where
  "storedMatrices =
     [\<lparr>m_id = ''trip'', m_name = ''Trip'', m_pinned = False\<rparr>,
      \<lparr>m_id = ''work'', m_name = ''Job'', m_pinned = False\<rparr>,
      \<lparr>m_id = ''home'', m_name = ''Home'', m_pinned = True\<rparr>]"




text \<open>Two stored entries that share a non-default id.\<close>

definition duplicatedMatrices :: "matrix list" where
  "duplicatedMatrices =
     [\<lparr>m_id = ''trip'', m_name = ''Trip'', m_pinned = False\<rparr>,
      \<lparr>m_id = ''trip'', m_name = ''Journey'', m_pinned = True\<rparr>]"

text \<open>
  The order invariant of one scope: the \<^verbatim>\<open>order\<close> values of its live tasks are exactly
  \<open>0, \<dots>, n - 1\<close> for the number \<open>n\<close> of live tasks. The second predicate checks every
  scope that has a task, which are all the scopes that matter.
\<close>

definition contiguous :: "task list \<Rightarrow> string option \<Rightarrow> urgency \<Rightarrow> bool" where
  "contiguous ts m u \<longleftrightarrow>
     (let live = filter (inScope m u) ts
      in set (map t_order live) = set (map (\<lambda>i. Some (int i)) [0..<length live]))"

definition contiguousScopes :: "task list \<Rightarrow> bool" where
  "contiguousScopes ts \<longleftrightarrow> list_all (\<lambda>t. contiguous ts (t_matrixId t) (t_urgency t)) ts"

text \<open>A live task is one that is neither archived nor deleted.\<close>

definition live :: "task \<Rightarrow> bool" where
  "live t \<longleftrightarrow> t_status t = NotDone \<or> t_status t = Completed"

text \<open>
  The list move of the specification: take the dragged element out and put it back at
  the position the target had.
\<close>

definition listMove :: "'a list \<Rightarrow> 'a \<Rightarrow> 'a \<Rightarrow> 'a list" where
  "listMove xs a b =
     (case indexOf xs b of
        None \<Rightarrow> xs
      | Some p \<Rightarrow> (let without = remove1 a xs in take p without @ [a] @ drop p without))"


definition ordered :: "app_state \<Rightarrow> bool" where
  "ordered s \<longleftrightarrow> contiguousScopes (tasks s) \<and> distinct (map t_id (tasks s))"

text \<open>Example states and sessions for the ordering and drag-and-drop results.\<close>

definition unselectedState :: app_state where
  "unselectedState =
     exampleState\<lparr>activePinnedIds := [''personal''], viewOrderIds := [''personal'']\<rparr>"

definition archivedTargetState :: app_state where
  "archivedTargetState =
     exampleState\<lparr>tasks := [mkTask 1 ''A'' ''work'' High NotDone 0,
                            mkTask 2 ''B'' ''work'' High NotDone 1,
                            mkTask 6 ''G'' ''work'' High Archived 1]\<rparr>"

definition sharedIdGroupState :: app_state where
  "sharedIdGroupState =
     exampleState\<lparr>tasks := [mkTask 1 ''A'' ''work'' High NotDone 0,
                            mkTask 1 ''A2'' ''work'' High NotDone 1,
                            mkTask 3 ''C'' ''work'' High NotDone 2]\<rparr>"




section \<open>Task ids are never dropped or invented\<close>

lemma applyOrders_ids: "map t_id (applyOrders u ts) = map t_id ts"
  by (induction ts) (auto simp: applyOrders_def split: option.splits)

lemma normalizeOrders_ids: "map t_id (normalizeOrders ts m u) = map t_id ts"
  by (simp add: normalizeOrders_def Let_def applyOrders_ids)

lemma fold_normalize_ids:
  "map t_id (fold (\<lambda>u next. normalizeOrders next m u) us ts) = map t_id ts"
  by (induction us arbitrary: ts) (simp_all add: normalizeOrders_ids)

lemma map_if_ids:
  "(\<And>t. t_id (f t) = t_id t) \<Longrightarrow>
   map t_id (map (\<lambda>t. if P t then f t else t) ts) = map t_id ts"
  by (induction ts) auto

lemma moveToUrgency_ids: "map t_id (moveToUrgency ts a at u) = map t_id ts"
  by (simp add: moveToUrgency_def Let_def normalizeOrders_ids map_if_ids)

lemma reorderWithin_ids: "map t_id (reorderWithin ts a b at) = map t_id ts"
  by (simp add: reorderWithin_def Let_def applyOrders_ids split: option.splits)

lemma handleDragEnd_ids: "map t_id (tasks (handleDragEnd s a ov)) = map t_id (tasks s)"
  by (simp add: handleDragEnd_def moveToUrgency_ids reorderWithin_ids
      split: option.splits over_id.splits)

lemma mergeMatrixInto_ids: "map t_id (tasks (mergeMatrixInto s a b)) = map t_id (tasks s)"
  by (simp add: mergeMatrixInto_def Let_def fold_normalize_ids map_if_ids)

text \<open>
  C10. Toggle, archive, unarchive, delete, commit-edit, merge, delete-matrix and the
  drag-end interpreter each return a task list with the same ids, in the same positions,
  as the one they were given: archiving and deleting only change the status.
\<close>

theorem ids_preserved:
  "map t_id (tasks (toggleComplete s i)) = map t_id (tasks s) \<and>
   map t_id (tasks (archiveTask s i isoNow)) = map t_id (tasks s) \<and>
   map t_id (tasks (unarchiveTask s i)) = map t_id (tasks s) \<and>
   map t_id (tasks (deleteTask s i isoNow)) = map t_id (tasks s) \<and>
   map t_id (tasks (commitEdit s)) = map t_id (tasks s) \<and>
   map t_id (tasks (mergeMatrixInto s sourceId destId)) = map t_id (tasks s) \<and>
   map t_id (tasks (deleteMatrixArchiveTasks s matrixId isoNow)) = map t_id (tasks s) \<and>
   map t_id (tasks (handleDragEnd s activeId over)) = map t_id (tasks s)"
  by (simp add: toggleComplete_def archiveTask_def unarchiveTask_def deleteTask_def
      commitEdit_def cancelEdit_def deleteMatrixArchiveTasks_def Let_def map_if_ids
      mergeMatrixInto_ids handleDragEnd_ids split: option.splits)

text \<open>The two operations that the statement above leaves out do change the ids.\<close>

lemma addTask_ids:
  "trim (nt_text (newTask s)) \<noteq> [] \<Longrightarrow>
   map t_id (tasks (addTask s now isoNow)) = map t_id (tasks s) @ [now]"
  by (simp add: addTask_def Let_def)

lemma clearDeleted_ids:
  "map t_id (tasks (clearDeleted s)) =
     map t_id (filter (\<lambda>t. t_status t \<noteq> Deleted) (tasks s))"
  by (simp add: clearDeleted_def)

section \<open>Toggle-complete\<close>

text \<open>
  C2, as the code has it. The toggle has no guard on the current status: the task with
  the given id becomes NotDone when it is Completed and Completed in every other case,
  so an Archived or Deleted task becomes Completed. Nothing else changes: the other
  fields of that task, the other tasks, and the rest of the state.
\<close>

theorem toggleComplete_unguarded:
  assumes "k < length (tasks s)"
  shows "length (tasks (toggleComplete s i)) = length (tasks s) \<and>
     tasks (toggleComplete s i) ! k =
       (let t = tasks s ! k
        in if t_id t \<noteq> i then t
           else if t_status t = Completed then t\<lparr>t_status := NotDone\<rparr>
           else t\<lparr>t_status := Completed\<rparr>) \<and>
     toggleComplete s i = s\<lparr>tasks := tasks (toggleComplete s i)\<rparr>"
  using assms by (simp add: toggleComplete_def Let_def)

theorem toggleComplete_unguarded_witness:
  "tasks (toggleComplete exampleState 1) ! 0 = mkTask 1 ''A'' ''work'' High Completed 0 \<and>
   tasks (toggleComplete exampleState 3) ! 2 = mkTask 3 ''C'' ''work'' High NotDone 2 \<and>
   tasks (toggleComplete exampleState 3) ! 0 = mkTask 1 ''A'' ''work'' High NotDone 0"
  using toggleComplete_unguarded [of 0 exampleState 1]
    toggleComplete_unguarded [of 2 exampleState 3]
    toggleComplete_unguarded [of 0 exampleState 3]
  by (simp add: exampleState_def exampleTasks_def mkTask_def)

text \<open>
  The claim as stated fails: toggling the archived task E of the example state changes
  the task list; E comes back as a Completed task.
\<close>

theorem toggleComplete_archived_counterexample:
  "t_status (exampleTasks ! 4) = Archived \<and>
   tasks (toggleComplete exampleState 5) \<noteq> tasks exampleState \<and>
   tasks (toggleComplete exampleState 5) ! 4 = mkTask 5 ''E'' ''work'' Medium Completed 0"
  by (simp add: exampleState_def exampleTasks_def mkTask_def toggleComplete_def)

section \<open>Cross-matrix drops\<close>



section \<open>Import is all-or-nothing\<close>

text \<open>
  C3. On a malformed input (unparsable text, a parsed value that is not an object, or an
  object whose \<^verbatim>\<open>matrices\<close> or \<^verbatim>\<open>tasks\<close> field is not an array) the import sets a
  non-empty error message, clears the success message, and leaves the task list, the
  matrix list and every other cell of the state as they were.
\<close>

theorem import_atomic:
  assumes "malformed inp"
  shows "tasks (importDataFromFile s inp) = tasks s \<and>
         matrices (importDataFromFile s inp) = matrices s \<and>
         importError (importDataFromFile s inp) \<noteq> [] \<and>
         importOk (importDataFromFile s inp) = [] \<and>
         importDataFromFile s inp =
           s\<lparr>importError := importError (importDataFromFile s inp), importOk := []\<rparr>"
  using assms
  by (auto simp: malformed_def importDataFromFile_def importFail_def Let_def
      split: file_input.splits parsed.splits option.splits)

theorem import_atomic_witness:
  "malformed (Parsed (JObject (Some DEFAULT_MATRICES) None)) \<and>
   tasks (importDataFromFile exampleState (Parsed (JObject (Some DEFAULT_MATRICES) None)))
     = exampleTasks \<and>
   matrices (importDataFromFile exampleState (Parsed (JObject (Some DEFAULT_MATRICES) None)))
     = DEFAULT_MATRICES"
proof -
  have m: "malformed (Parsed (JObject (Some DEFAULT_MATRICES) None))"
    by (simp add: malformed_def)
  show ?thesis
    using m import_atomic [OF m, of exampleState] by (simp add: exampleState_def)
qed

section \<open>Legacy tag mapping\<close>

lemma migrateTag_legacy:
  "\<not> truthy (t_matrixId t) \<Longrightarrow>
   migrateTag t = t\<lparr>t_matrixId := Some (legacyMatrixId (t_tag t)), t_tag := None\<rparr>"
  by (simp add: migrateTag_def legacyMatrixId_def Let_def)

lemma migrateTag_truthy: "truthy (t_matrixId (migrateTag t))"
  by (simp add: migrateTag_def truthy_def Let_def)

lemma migrateTag_fixed: "truthy (t_matrixId t) \<Longrightarrow> migrateTag t = t"
  by (simp add: migrateTag_def)

lemma migrateTag_order: "t_order (migrateTag t) = t_order t"
  by (simp add: migrateTag_def Let_def)

lemma length_backfill: "length (backfill c ts) = length ts"
  by (induction ts arbitrary: c) (simp_all add: Let_def)

lemma backfill_nth:
  "i < length ts \<Longrightarrow> \<exists>n. backfill c ts ! i = (ts ! i)\<lparr>t_order := Some n\<rparr>"
proof (induction ts arbitrary: c i)
  case Nil
  then show ?case by simp
next
  case (Cons t ts)
  show ?case
  proof (cases i)
    case 0
    then show ?thesis by (auto simp: Let_def)
  next
    case (Suc j)
    with Cons.prems have "j < length ts" by simp
    from Cons.IH [OF this] Suc show ?thesis by (simp add: Let_def)
  qed
qed

lemma hasAnyOrder_migrated:
  "list_ex (\<lambda>t. t_order t \<noteq> None) (map migrateTag ts) = list_ex (\<lambda>t. t_order t \<noteq> None) ts"
  by (induction ts) (simp_all add: migrateTag_order)

lemma length_migrateTasks: "length (migrateTasks ts) = length ts"
  by (simp add: migrateTasks_def Let_def length_backfill)

lemma migrateTasks_nth:
  assumes "i < length ts"
  shows "\<exists>ord. migrateTasks ts ! i = (migrateTag (ts ! i))\<lparr>t_order := ord\<rparr>"
proof (cases "list_ex (\<lambda>t. t_order t \<noteq> None) (map migrateTag ts)")
  case True
  then have "migrateTasks ts ! i = migrateTag (ts ! i)"
    using assms by (simp add: migrateTasks_def Let_def)
  then have "migrateTasks ts ! i = (migrateTag (ts ! i))\<lparr>t_order := t_order (migrateTag (ts ! i))\<rparr>"
    by simp
  then show ?thesis by blast
next
  case False
  then have eq: "migrateTasks ts = backfill Map.empty (map migrateTag ts)"
    by (simp add: migrateTasks_def Let_def)
  from assms have "i < length (map migrateTag ts)" by simp
  from backfill_nth [OF this, of Map.empty] assms eq show ?thesis by auto
qed

text \<open>
  C8. A task without a (truthy) \<^verbatim>\<open>matrixId\<close> gets the matrix id that the lookup gives
  for its tag, loses the tag, and keeps every other field. This is the tag-mapping step
  of \<^verbatim>\<open>migrateTasks\<close>; in the result of the whole function the task at the same position
  differs from that only in \<^verbatim>\<open>order\<close>, which the separate back-fill step sets when no
  task of the input has a numeric order, and not at all otherwise.
\<close>

theorem legacy_tag_mapping:
  assumes "i < length ts" and "\<not> truthy (t_matrixId (ts ! i))"
  shows "migrateTag (ts ! i) =
           (ts ! i)\<lparr>t_matrixId := Some (legacyMatrixId (t_tag (ts ! i))), t_tag := None\<rparr> \<and>
         length (migrateTasks ts) = length ts \<and>
         migrateTasks ts ! i =
           (ts ! i)\<lparr>t_matrixId := Some (legacyMatrixId (t_tag (ts ! i))), t_tag := None,
                    t_order := t_order (migrateTasks ts ! i)\<rparr> \<and>
         (list_ex (\<lambda>t. t_order t \<noteq> None) ts \<longrightarrow> migrateTasks ts ! i = migrateTag (ts ! i))"
proof -
  have a: "migrateTag (ts ! i) =
      (ts ! i)\<lparr>t_matrixId := Some (legacyMatrixId (t_tag (ts ! i))), t_tag := None\<rparr>"
    using assms(2) by (rule migrateTag_legacy)
  obtain ord where o: "migrateTasks ts ! i = (migrateTag (ts ! i))\<lparr>t_order := ord\<rparr>"
    using migrateTasks_nth [OF assms(1)] by blast
  then have "t_order (migrateTasks ts ! i) = ord" by simp
  with o a have c: "migrateTasks ts ! i =
      (ts ! i)\<lparr>t_matrixId := Some (legacyMatrixId (t_tag (ts ! i))), t_tag := None,
                    t_order := t_order (migrateTasks ts ! i)\<rparr>"
    by simp
  have d: "list_ex (\<lambda>t. t_order t \<noteq> None) ts \<longrightarrow> migrateTasks ts ! i = migrateTag (ts ! i)"
    using assms(1) by (simp add: migrateTasks_def Let_def hasAnyOrder_migrated del: not_None_eq)
  from a c d show ?thesis by (simp add: length_migrateTasks)
qed

theorem legacy_tag_mapping_witness:
  "\<not> truthy (t_matrixId (legacyTasks ! 0)) \<and>
   migrateTag (legacyTasks ! 0) =
     \<lparr>t_id = 1, t_text = ''p'', t_matrixId = Some ''personal'', t_tag = None,
      t_urgency = High, t_status = NotDone, t_order = None, t_createdAt = None,
      t_archivedAt = None, t_deletedAt = None\<rparr> \<and>
   migrateTasks legacyTasks =
     [mkTask 1 ''p'' ''personal'' High NotDone 0,
      mkTask 2 ''g'' ''goals'' High NotDone 0,
      mkTask 3 ''w'' ''work'' High NotDone 0,
      mkTask 4 ''n'' ''work'' High NotDone 1,
      mkTask 5 ''q'' ''personal'' High Completed 1]"
proof -
  have h0: "0 < length legacyTasks" by (simp add: legacyTasks_def)
  have f0: "\<not> truthy (t_matrixId (legacyTasks ! 0))"
    by (simp add: legacyTasks_def truthy_def)
  have r: "migrateTasks legacyTasks =
     [mkTask 1 ''p'' ''personal'' High NotDone 0,
      mkTask 2 ''g'' ''goals'' High NotDone 0,
      mkTask 3 ''w'' ''work'' High NotDone 0,
      mkTask 4 ''n'' ''work'' High NotDone 1,
      mkTask 5 ''q'' ''personal'' High Completed 1]"
    by (simp add: migrateTasks_def legacyTasks_def migrateTag_def truthy_def Let_def
        scopeKey_def mkTask_def)
  from legacy_tag_mapping [OF h0 f0] f0 r show ?thesis
    by (simp add: legacyTasks_def legacyMatrixId_def)
qed

section \<open>Default matrices\<close>

lemma update_new: "k \<notin> fst ` set al \<Longrightarrow> AList.update k v al = al @ [(k, v)]"
  by (induction al) auto

lemma set_update_subset: "set (AList.update k v al) \<subseteq> insert (k, v) (set al)"
  by (induction al) auto

lemma keyed_update: "keyed al \<Longrightarrow> m_id v = k \<Longrightarrow> keyed (AList.update k v al)"
  by (induction al) (auto simp: keyed_def)

lemma keyed_map_of: "keyed al \<Longrightarrow> map_of al k = Some e \<Longrightarrow> m_id e = k"
  by (induction al) (auto simp: keyed_def split: if_splits)

lemma keyed_ids: "keyed al \<Longrightarrow> map m_id (map snd al) = map fst al"
  by (induction al) (auto simp: keyed_def)

lemma fold_update_inv:
  "distinct (map fst acc) \<Longrightarrow> keyed acc \<Longrightarrow>
   distinct (map fst (fold (\<lambda>m a. AList.update (m_id m) m a) ms acc)) \<and>
   keyed (fold (\<lambda>m a. AList.update (m_id m) m a) ms acc)"
  by (induction ms arbitrary: acc) (simp_all add: distinct_update keyed_update)

lemma byId_inv: "distinct (map fst (byId ms)) \<and> keyed (byId ms)"
  unfolding byId_def by (rule fold_update_inv) (simp_all add: keyed_def)

lemma rebuild:
  "keyed al \<Longrightarrow> distinct (map fst (acc @ al)) \<Longrightarrow>
   fold (\<lambda>m a. AList.update (m_id m) m a) (map snd al) acc = acc @ al"
proof (induction al arbitrary: acc)
  case Nil
  then show ?case by simp
next
  case (Cons p al)
  obtain k v where p: "p = (k, v)" by (cases p)
  from Cons.prems p have kv: "m_id v = k" and kal: "keyed al" by (simp_all add: keyed_def)
  from Cons.prems p have notin: "k \<notin> fst ` set acc" by auto
  have step: "AList.update k v acc = acc @ [(k, v)]" using notin by (rule update_new)
  from Cons.prems p have d: "distinct (map fst ((acc @ [(k, v)]) @ al))" by simp
  from Cons.IH [OF kal d] show ?case using p kv step by simp
qed

lemma byId_distinct: "distinct (map m_id ms) \<Longrightarrow> byId ms = map (\<lambda>m. (m_id m, m)) ms"
proof -
  assume d: "distinct (map m_id ms)"
  let ?al = "map (\<lambda>m. (m_id m, m)) ms"
  have k: "keyed ?al" by (simp add: keyed_def list_all_iff)
  have f: "map fst ?al = map m_id ms" by (simp add: comp_def)
  have s: "map snd ?al = ms" by (simp add: comp_def)
  from d have "distinct (map fst ([] @ ?al))" by (simp add: comp_def)
  from rebuild [OF k this] s show ?thesis by (simp add: byId_def)
qed

lemma ensureStep_inv:
  assumes dd: "distinct (map fst al)" and k: "keyed al"
  shows "distinct (map fst (ensureStep d al)) \<and> keyed (ensureStep d al)"
proof (cases "map_of al (m_id d)")
  case None
  with dd k show ?thesis
    by (simp add: ensureStep_def distinct_update keyed_update)
next
  case (Some e)
  from keyed_map_of [OF k Some]
  have "m_id (e\<lparr>m_name := m_name d, m_pinned := True\<rparr>) = m_id d"
    by simp
  from keyed_update [OF k this] Some dd show ?thesis
    by (simp add: ensureStep_def distinct_update)
qed

lemma ensureStep_settles:
  "keyed al \<Longrightarrow> m_pinned d \<Longrightarrow> map_of (ensureStep d al) (m_id d) = Some d"
  by (auto simp: ensureStep_def update_conv' dest: keyed_map_of split: option.splits)

lemma ensureStep_other: "k \<noteq> m_id d \<Longrightarrow> map_of (ensureStep d al) k = map_of al k"
  by (simp add: ensureStep_def update_conv' split: option.splits)

lemma ensureStep_triv: "map_of al (m_id d) = Some d \<Longrightarrow> m_pinned d \<Longrightarrow> ensureStep d al = al"
  by (simp add: ensureStep_def update_triv)

lemma fold_ensure_inv:
  "distinct (map fst al) \<Longrightarrow> keyed al \<Longrightarrow>
   distinct (map fst (fold ensureStep ds al)) \<and> keyed (fold ensureStep ds al)"
  by (induction ds arbitrary: al) (simp_all add: ensureStep_inv)

lemma fold_ensure_other:
  "k \<notin> m_id ` set ds \<Longrightarrow> map_of (fold ensureStep ds al) k = map_of al k"
  by (induction ds arbitrary: al) (simp_all add: ensureStep_other)

lemma fold_ensure_settles:
  "distinct (map m_id ds) \<Longrightarrow> list_all m_pinned ds \<Longrightarrow> distinct (map fst al) \<Longrightarrow> keyed al \<Longrightarrow>
   d \<in> set ds \<Longrightarrow> map_of (fold ensureStep ds al) (m_id d) = Some d"
proof (induction ds arbitrary: al)
  case Nil
  then show ?case by simp
next
  case (Cons x xs)
  have inv: "distinct (map fst (ensureStep x al))" "keyed (ensureStep x al)"
    using ensureStep_inv [OF Cons.prems(3,4)] by simp_all
  show ?case
  proof (cases "d = x")
    case True
    with Cons.prems(1) have "m_id d \<notin> m_id ` set xs" by auto
    from fold_ensure_other [OF this] True Cons.prems(2,4) show ?thesis
      by (simp add: ensureStep_settles)
  next
    case False
    with Cons.prems have "d \<in> set xs" "distinct (map m_id xs)" "list_all m_pinned xs"
      by simp_all
    from Cons.IH [OF this(2,3) inv this(1)] show ?thesis by simp
  qed
qed

lemma fold_ensure_triv:
  "list_all (\<lambda>d. map_of al (m_id d) = Some d \<and> m_pinned d) ds \<Longrightarrow> fold ensureStep ds al = al"
  by (induction ds) (simp_all add: ensureStep_triv)

lemma defaults_ok: "distinct (map m_id DEFAULT_MATRICES) \<and> list_all m_pinned DEFAULT_MATRICES"
  by (simp add: DEFAULT_MATRICES_def)

lemma ensure_alt: "ensureDefaultPinnedMatrices ms = map snd (fold ensureStep DEFAULT_MATRICES (byId ms))"
  by (simp add: ensureDefaultPinnedMatrices_def byId_def)

lemma ensure_settled:
  "d \<in> set DEFAULT_MATRICES \<Longrightarrow>
   map_of (fold ensureStep DEFAULT_MATRICES (byId ms)) (m_id d) = Some d"
  using fold_ensure_settles defaults_ok byId_inv by blast

lemma ensure_idem:
  "ensureDefaultPinnedMatrices (ensureDefaultPinnedMatrices ms) = ensureDefaultPinnedMatrices ms"
proof -
  let ?al = "fold ensureStep DEFAULT_MATRICES (byId ms)"
  have inv: "distinct (map fst ?al)" "keyed ?al"
    using fold_ensure_inv byId_inv by blast+
  from inv have "distinct (map fst ([] @ ?al))" by simp
  from rebuild [OF inv(2) this] have r: "byId (map snd ?al) = ?al" by (simp add: byId_def)
  have "list_all (\<lambda>d. map_of ?al (m_id d) = Some d \<and> m_pinned d) DEFAULT_MATRICES"
    using ensure_settled [of _ ms] defaults_ok by (simp add: list_all_iff)
  then have "fold ensureStep DEFAULT_MATRICES ?al = ?al" by (rule fold_ensure_triv)
  with r show ?thesis by (simp add: ensure_alt)
qed

lemma filter_update_in:
  "k \<in> D \<Longrightarrow> filter (\<lambda>p. fst p \<notin> D) (AList.update k v al) = filter (\<lambda>p. fst p \<notin> D) al"
  by (induction al) auto

lemma filter_ensureStep:
  "m_id d \<in> D \<Longrightarrow> filter (\<lambda>p. fst p \<notin> D) (ensureStep d al) = filter (\<lambda>p. fst p \<notin> D) al"
  by (simp add: ensureStep_def filter_update_in split: option.splits)

lemma filter_fold_ensure:
  "m_id ` set ds \<subseteq> D \<Longrightarrow>
   filter (\<lambda>p. fst p \<notin> D) (fold ensureStep ds al) = filter (\<lambda>p. fst p \<notin> D) al"
  by (induction ds arbitrary: al) (simp_all add: filter_ensureStep)

lemma keyed_filter:
  "keyed al \<Longrightarrow> filter (\<lambda>m. m_id m \<notin> D) (map snd al) = map snd (filter (\<lambda>p. fst p \<notin> D) al)"
  by (induction al) (auto simp: keyed_def)

lemma ensure_nonDefault:
  "filter nonDefault (ensureDefaultPinnedMatrices ms) = filter nonDefault (map snd (byId ms))"
proof -
  let ?D = "set (map m_id DEFAULT_MATRICES)"
  let ?al = "fold ensureStep DEFAULT_MATRICES (byId ms)"
  have k1: "keyed ?al" using fold_ensure_inv byId_inv by blast
  have k0: "keyed (byId ms)" using byId_inv by blast
  have "filter (\<lambda>m. m_id m \<notin> ?D) (map snd ?al) = map snd (filter (\<lambda>p. fst p \<notin> ?D) ?al)"
    using k1 by (rule keyed_filter)
  also have "\<dots> = map snd (filter (\<lambda>p. fst p \<notin> ?D) (byId ms))"
    by (subst filter_fold_ensure) simp_all
  also have "\<dots> = filter (\<lambda>m. m_id m \<notin> ?D) (map snd (byId ms))"
    using k0 by (rule keyed_filter [symmetric])
  finally show ?thesis by (simp add: ensure_alt nonDefault_def [abs_def])
qed

lemma dom_fold_update:
  "fst ` set (fold (\<lambda>m a. AList.update (m_id m) m a) ms acc) = fst ` set acc \<union> m_id ` set ms"
  by (induction ms arbitrary: acc) (auto simp: dom_update)

lemma dom_ensureStep: "fst ` set (ensureStep d al) = insert (m_id d) (fst ` set al)"
  by (auto simp: ensureStep_def dom_update split: option.splits)

lemma dom_fold_ensure: "fst ` set (fold ensureStep ds al) = fst ` set al \<union> m_id ` set ds"
  by (induction ds arbitrary: al) (auto simp: dom_ensureStep)

lemma ensure_ids:
  "set (map m_id (ensureDefaultPinnedMatrices ms)) = m_id ` set ms \<union> m_id ` set DEFAULT_MATRICES"
proof -
  let ?al = "fold ensureStep DEFAULT_MATRICES (byId ms)"
  have k1: "keyed ?al" using fold_ensure_inv byId_inv by blast
  have "set (map m_id (map snd ?al)) = fst ` set ?al" using keyed_ids [OF k1] by simp
  then show ?thesis
    by (simp add: ensure_alt dom_fold_ensure byId_def dom_fold_update del: map_map)
qed

lemma ensure_distinct: "distinct (map m_id (ensureDefaultPinnedMatrices ms))"
proof -
  let ?al = "fold ensureStep DEFAULT_MATRICES (byId ms)"
  have inv: "distinct (map fst ?al)" "keyed ?al" using fold_ensure_inv byId_inv by blast+
  show ?thesis using keyed_ids [OF inv(2)] inv(1) by (simp add: ensure_alt del: map_map)
qed

lemma ensure_defaults: "set DEFAULT_MATRICES \<subseteq> set (ensureDefaultPinnedMatrices ms)"
proof
  fix d assume "d \<in> set DEFAULT_MATRICES"
  from ensure_settled [OF this, of ms] have "(m_id d, d) \<in> set (fold ensureStep DEFAULT_MATRICES (byId ms))"
    by (rule map_of_SomeD)
  then show "d \<in> set (ensureDefaultPinnedMatrices ms)" by (force simp: ensure_alt)
qed

text \<open>
  C7. Whatever list is given, the result contains each of the three default matrices
  with its default name and \<^verbatim>\<open>pinned = true\<close> (so a stored entry under a default id is
  overwritten, and a missing one is inserted), holds each id once, and holds exactly
  the ids of the input and the default ids. When the ids of the input are pairwise
  different, the non-default matrices of the result are those of the input, unchanged
  and in the same order, pinned or not.
\<close>

theorem default_matrices_enforced:
  "set DEFAULT_MATRICES \<subseteq> set (ensureDefaultPinnedMatrices ms) \<and>
   distinct (map m_id (ensureDefaultPinnedMatrices ms)) \<and>
   set (map m_id (ensureDefaultPinnedMatrices ms)) =
     set (map m_id ms) \<union> set (map m_id DEFAULT_MATRICES) \<and>
   (distinct (map m_id ms) \<longrightarrow>
      filter nonDefault (ensureDefaultPinnedMatrices ms) = filter nonDefault ms)"
proof -
  have "distinct (map m_id ms) \<longrightarrow>
      filter nonDefault (ensureDefaultPinnedMatrices ms) = filter nonDefault ms"
  proof
    assume "distinct (map m_id ms)"
    then have "map snd (byId ms) = ms" by (simp add: byId_distinct comp_def)
    then show "filter nonDefault (ensureDefaultPinnedMatrices ms) = filter nonDefault ms"
      by (simp add: ensure_nonDefault)
  qed
  then show ?thesis using ensure_defaults ensure_distinct ensure_ids by simp
qed

theorem default_matrices_enforced_witness:
  "distinct (map m_id storedMatrices) \<and>
   ensureDefaultPinnedMatrices storedMatrices =
     [\<lparr>m_id = ''trip'', m_name = ''Trip'', m_pinned = False\<rparr>,
      \<lparr>m_id = ''work'', m_name = ''Work'', m_pinned = True\<rparr>,
      \<lparr>m_id = ''home'', m_name = ''Home'', m_pinned = True\<rparr>,
      \<lparr>m_id = ''personal'', m_name = ''Personal'', m_pinned = True\<rparr>,
      \<lparr>m_id = ''goals'', m_name = ''Goals'', m_pinned = True\<rparr>] \<and>
   filter nonDefault (ensureDefaultPinnedMatrices storedMatrices) =
     [\<lparr>m_id = ''trip'', m_name = ''Trip'', m_pinned = False\<rparr>,
      \<lparr>m_id = ''home'', m_name = ''Home'', m_pinned = True\<rparr>]"
proof -
  have d: "distinct (map m_id storedMatrices)" by (simp add: storedMatrices_def)
  have e: "ensureDefaultPinnedMatrices storedMatrices =
     [\<lparr>m_id = ''trip'', m_name = ''Trip'', m_pinned = False\<rparr>,
      \<lparr>m_id = ''work'', m_name = ''Work'', m_pinned = True\<rparr>,
      \<lparr>m_id = ''home'', m_name = ''Home'', m_pinned = True\<rparr>,
      \<lparr>m_id = ''personal'', m_name = ''Personal'', m_pinned = True\<rparr>,
      \<lparr>m_id = ''goals'', m_name = ''Goals'', m_pinned = True\<rparr>]"
    by (simp add: ensureDefaultPinnedMatrices_def storedMatrices_def DEFAULT_MATRICES_def
        ensureStep_def)
  have f: "filter nonDefault storedMatrices =
     [\<lparr>m_id = ''trip'', m_name = ''Trip'', m_pinned = False\<rparr>,
      \<lparr>m_id = ''home'', m_name = ''Home'', m_pinned = True\<rparr>]"
    by (simp add: storedMatrices_def nonDefault_def DEFAULT_MATRICES_def)
  from default_matrices_enforced [of storedMatrices] d e f show ?thesis by simp
qed

text \<open>
  The claim as stated fails on a list in which two entries share an id: the map keyed
  by id keeps the later entry, so the earlier non-default matrix is not preserved.
\<close>

theorem duplicate_matrix_id_counterexample:
  "nonDefault \<lparr>m_id = ''trip'', m_name = ''Trip'', m_pinned = False\<rparr> \<and>
   \<lparr>m_id = ''trip'', m_name = ''Trip'', m_pinned = False\<rparr> \<in> set duplicatedMatrices \<and>
   \<lparr>m_id = ''trip'', m_name = ''Trip'', m_pinned = False\<rparr>
     \<notin> set (ensureDefaultPinnedMatrices duplicatedMatrices) \<and>
   ensureDefaultPinnedMatrices duplicatedMatrices =
     \<lparr>m_id = ''trip'', m_name = ''Journey'', m_pinned = True\<rparr> # DEFAULT_MATRICES"
  by (simp add: ensureDefaultPinnedMatrices_def duplicatedMatrices_def DEFAULT_MATRICES_def
      ensureStep_def nonDefault_def)

section \<open>Migration is idempotent\<close>

lemma backfill_matrixId: "map t_matrixId (backfill c ts) = map t_matrixId ts"
  by (induction ts arbitrary: c) (simp_all add: Let_def)

lemma backfill_orders: "list_all (\<lambda>t. t_order t \<noteq> None) (backfill c ts)"
  by (induction ts arbitrary: c) (simp_all add: Let_def)

lemma map_migrateTag_fixed:
  "list_all (\<lambda>t. truthy (t_matrixId t)) ts \<Longrightarrow> map migrateTag ts = ts"
  by (induction ts) (simp_all add: migrateTag_fixed)

lemma truthy_by_matrixIds:
  "map t_matrixId xs = map t_matrixId ys \<Longrightarrow>
   list_all (\<lambda>t. truthy (t_matrixId t)) ys \<Longrightarrow> list_all (\<lambda>t. truthy (t_matrixId t)) xs"
proof -
  assume eq: "map t_matrixId xs = map t_matrixId ys"
    and ys: "list_all (\<lambda>t. truthy (t_matrixId t)) ys"
  have "list_all truthy (map t_matrixId ys)" using ys by (simp add: list_all_iff)
  with eq have "list_all truthy (map t_matrixId xs)" by simp
  then show ?thesis by (simp add: list_all_iff)
qed

lemma migrateTasks_fixed:
  assumes "list_all (\<lambda>t. truthy (t_matrixId t)) xs"
    and "xs = [] \<or> list_ex (\<lambda>t. t_order t \<noteq> None) xs"
  shows "migrateTasks xs = xs"
proof -
  have m: "map migrateTag xs = xs" using assms(1) by (rule map_migrateTag_fixed)
  show ?thesis
  proof (cases "xs = []")
    case True
    then show ?thesis by (simp add: migrateTasks_def)
  next
    case False
    with assms(2) have "list_ex (\<lambda>t. t_order t \<noteq> None) xs" by simp
    then show ?thesis unfolding migrateTasks_def Let_def m by simp
  qed
qed

lemma migrateTasks_idem: "migrateTasks (migrateTasks ts) = migrateTasks ts"
proof -
  let ?M = "map migrateTag ts"
  have tM: "list_all (\<lambda>t. truthy (t_matrixId t)) ?M"
    by (simp add: list_all_iff migrateTag_truthy)
  show ?thesis
  proof (cases "list_ex (\<lambda>t. t_order t \<noteq> None) ?M")
    case True
    then have eq: "migrateTasks ts = ?M" unfolding migrateTasks_def Let_def by simp
    from True have "?M = [] \<or> list_ex (\<lambda>t. t_order t \<noteq> None) ?M" by simp
    from migrateTasks_fixed [OF tM this] eq show ?thesis by simp
  next
    case False
    let ?B = "backfill Map.empty ?M"
    from False have eq: "migrateTasks ts = ?B" unfolding migrateTasks_def Let_def by simp
    have tB: "list_all (\<lambda>t. truthy (t_matrixId t)) ?B"
      using backfill_matrixId tM by (rule truthy_by_matrixIds)
    have "?B = [] \<or> list_ex (\<lambda>t. t_order t \<noteq> None) ?B"
    proof (cases ?B)
      case Nil
      then show ?thesis by simp
    next
      case (Cons b bs)
      with backfill_orders [of Map.empty ?M] have "t_order b \<noteq> None" by simp
      with Cons show ?thesis by simp
    qed
    from migrateTasks_fixed [OF tB this] eq show ?thesis by simp
  qed
qed

text \<open>
  C6. Migrating an already migrated task list, and normalizing an already normalized
  matrix list, gives the same list again.
\<close>

theorem migration_idempotent:
  "migrateTasks (migrateTasks ts) = migrateTasks ts \<and>
   ensureDefaultPinnedMatrices (ensureDefaultPinnedMatrices ms) =
     ensureDefaultPinnedMatrices ms"
  by (simp add: migrateTasks_idem ensure_idem)


section \<open>Selected matrices\<close>


lemma fold_setAdd_distinct:
  "distinct acc \<Longrightarrow> distinct (fold (\<lambda>x S. setAdd S x) xs acc)"
  by (induction xs arbitrary: acc) (auto simp: setAdd_def)


lemma distinct_newSet: "distinct (newSet xs)"
  by (simp add: newSet_def fold_setAdd_distinct)









section \<open>The ordering engine\<close>


lemma upto_distinct: "distinct (map (\<lambda>i. Some (int i)) [0..<n])"
  by (simp add: distinct_map inj_on_def)

lemma contiguous_mset:
  "contiguous ts m u \<longleftrightarrow>
     mset (map t_order (filter (inScope m u) ts)) =
       mset (map (\<lambda>i. Some (int i)) [0..<length (filter (inScope m u) ts)])"
proof -
  let ?L = "filter (inScope m u) ts"
  let ?U = "map (\<lambda>i. Some (int i)) [0..<length ?L]"
  show ?thesis
  proof
    assume c: "contiguous ts m u"
    then have s: "set (map t_order ?L) = set ?U" by (simp add: contiguous_def Let_def)
    have "card (set ?U) = length ?L" using distinct_card [OF upto_distinct, of "length ?L"] by simp
    with s have "card (set (map t_order ?L)) = length (map t_order ?L)" by simp
    then have d: "distinct (map t_order ?L)" by (rule card_distinct)
    from set_eq_iff_mset_eq_distinct [OF d upto_distinct] s
    show "mset (map t_order ?L) = mset ?U" by blast
  next
    assume "mset (map t_order ?L) = mset ?U"
    then have "set (map t_order ?L) = set ?U" by (rule mset_eq_setD)
    then show "contiguous ts m u" by (simp add: contiguous_def Let_def)
  qed
qed

lemma setIndexed_notin: "x \<notin> set xs \<Longrightarrow> setIndexed upd xs k x = upd x"
  by (induction xs arbitrary: upd k) auto

lemma setIndexed_nth:
  "distinct xs \<Longrightarrow> i < length xs \<Longrightarrow> setIndexed upd xs k (xs ! i) = Some (k + i)"
proof (induction xs arbitrary: upd k i)
  case Nil
  then show ?case by simp
next
  case (Cons x xs)
  show ?case
  proof (cases i)
    case 0
    with Cons.prems show ?thesis by (simp add: setIndexed_notin)
  next
    case (Suc j)
    have "setIndexed (upd(x \<mapsto> k)) xs (Suc k) (xs ! j) = Some (Suc k + j)"
      by (rule Cons.IH) (use Cons.prems Suc in simp_all)
    then show ?thesis using Suc by simp
  qed
qed

lemma setIndexed_indexOf: "distinct xs \<Longrightarrow> setIndexed Map.empty xs 0 x = indexOf xs x"
proof -
  have g: "\<And>upd k. distinct xs \<Longrightarrow>
      setIndexed upd xs k x = (case indexOf xs x of None \<Rightarrow> upd x | Some i \<Rightarrow> Some (k + i))"
  proof (induction xs)
    case Nil
    then show ?case by simp
  next
    case (Cons y ys)
    show ?case
    proof (cases "y = x")
      case True
      with Cons.prems show ?thesis by (simp add: setIndexed_notin)
    next
      case False
      have "setIndexed (upd(y \<mapsto> k)) ys (Suc k) x =
          (case indexOf ys x of None \<Rightarrow> (upd(y \<mapsto> k)) x | Some i \<Rightarrow> Some (Suc k + i))"
        by (rule Cons.IH) (use Cons.prems in simp)
      with False show ?thesis by (simp split: option.splits)
    qed
  qed
  assume "distinct xs"
  from g [OF this, of Map.empty 0] show ?thesis by (simp split: option.splits)
qed

lemma setIndexed_inj:
  "inj f \<Longrightarrow> setIndexed upd (map f xs) k (f x) = setIndexed (\<lambda>y. upd (f y)) xs k x"
proof (induction xs arbitrary: upd k)
  case Nil
  then show ?case by simp
next
  case (Cons a xs)
  have e: "(\<lambda>y. (upd(f a \<mapsto> k)) (f y)) = (\<lambda>y. upd (f y))(a \<mapsto> k)"
    using Cons.prems by (auto simp: fun_eq_iff inj_def)
  have "setIndexed (upd(f a \<mapsto> k)) (map f xs) (Suc k) (f x) =
      setIndexed (\<lambda>y. (upd(f a \<mapsto> k)) (f y)) xs (Suc k) x"
    by (rule Cons.IH) (rule Cons.prems)
  then show ?case unfolding e by simp
qed

lemma indexOf_None: "indexOf xs x = None \<longleftrightarrow> x \<notin> set xs"
  by (induction xs) auto

lemma indexOf_Some: "indexOf xs x = Some i \<Longrightarrow> i < length xs \<and> xs ! i = x"
  by (induction xs arbitrary: i) (auto split: if_splits)

lemma indexOf_nth: "distinct xs \<Longrightarrow> i < length xs \<Longrightarrow> indexOf xs (xs ! i) = Some i"
proof (induction xs arbitrary: i)
  case Nil
  then show ?case by simp
next
  case (Cons x xs)
  then show ?case by (cases i) auto
qed

lemma applyOrders_filter:
  "filter (inScope m u) (applyOrders upd ts) = applyOrders upd (filter (inScope m u) ts)"
  by (induction ts) (auto simp: applyOrders_def inScope_def split: option.splits)



lemma applyOrders_contiguous:
  assumes D: "distinct (map t_id ts)"
    and K: "distinct ks"
    and S: "set ks = t_id ` set (filter (inScope m u) ts)"
  shows "contiguous (applyOrders (indexOf ks) ts) m u"
proof -
  let ?L = "filter (inScope m u) ts"
  let ?g = "\<lambda>k. Some (int (the (indexOf ks k)))"
  have dL: "distinct (map t_id ?L)" using D by (rule distinct_map_filter)
  have "set (map t_id ?L) = set ks" using S by simp
  with set_eq_iff_mset_eq_distinct [OF dL K] have ms: "mset (map t_id ?L) = mset ks" by blast
  then have len: "length ?L = length ks" using mset_eq_length by fastforce
  have ord: "map t_order (applyOrders (indexOf ks) ?L) = map ?g (map t_id ?L)"
    unfolding applyOrders_def map_map
  proof (rule map_cong [OF refl])
    fix t assume "t \<in> set ?L"
    with S have "t_id t \<in> set ks" by auto
    then obtain i where "indexOf ks (t_id t) = Some i"
      using indexOf_None [of ks "t_id t"] by (cases "indexOf ks (t_id t)") auto
    then show "(t_order \<circ> (\<lambda>t. case indexOf ks (t_id t) of None \<Rightarrow> t
                 | Some idx \<Rightarrow> t\<lparr>t_order := Some (int idx)\<rparr>)) t = (?g \<circ> t_id) t"
      by simp
  qed
  have up: "map ?g ks = map (\<lambda>i. Some (int i)) [0..<length ks]"
    by (rule nth_equalityI) (simp_all add: indexOf_nth [OF K])
  have "mset (map ?g (map t_id ?L)) = image_mset ?g (mset (map t_id ?L))"
    by (simp only: mset_map)
  also have "\<dots> = image_mset ?g (mset ks)" by (simp only: ms)
  also have "\<dots> = mset (map ?g ks)" by (simp only: mset_map)
  finally have "mset (map t_order (applyOrders (indexOf ks) ?L)) =
      mset (map (\<lambda>i. Some (int i)) [0..<length ks])"
    using ord up by simp
  moreover have "length (applyOrders (indexOf ks) ?L) = length ks"
    using len by (simp add: applyOrders_def)
  ultimately show ?thesis unfolding contiguous_mset applyOrders_filter by simp
qed

lemma canonical_ids:
  "mset (map t_id (canonicalGroup ts m u)) = mset (map t_id (filter (inScope m u) ts))"
  by (simp add: canonicalGroup_def)

lemma canonical_ids_distinct:
  "distinct (map t_id ts) \<Longrightarrow> distinct (map t_id (canonicalGroup ts m u))"
proof -
  assume "distinct (map t_id ts)"
  then have "distinct (map t_id (filter (inScope m u) ts))" by (rule distinct_map_filter)
  with canonical_ids [of ts m u] show ?thesis by (metis mset_eq_imp_distinct_iff)
qed

lemma canonical_ids_set:
  "set (map t_id (canonicalGroup ts m u)) = t_id ` set (filter (inScope m u) ts)"
  by (simp add: canonicalGroup_def)





lemma remove1_indexOf: "indexOf xs a = Some i \<Longrightarrow> remove1 a xs = take i xs @ drop (Suc i) xs"
proof (induction xs arbitrary: i)
  case Nil
  then show ?case by simp
next
  case (Cons x xs)
  then show ?case by (cases "x = a") auto
qed

lemma arrayMove_listMove:
  assumes "indexOf xs a = Some old" and "indexOf xs b = Some new"
  shows "arrayMove xs old new = map Some (listMove xs a b)"
proof -
  from indexOf_Some [OF assms(1)] have o: "old < length xs" "xs ! old = a" by simp_all
  from remove1_indexOf [OF assms(1)] have r: "take old xs @ drop (Suc old) xs = remove1 a xs"
    by simp
  show ?thesis
    unfolding arrayMove_def listMove_def Let_def r using o assms(2)
    by (simp add: take_map drop_map)
qed

lemma mset_listMove: "a \<in> set xs \<Longrightarrow> mset (listMove xs a b) = mset xs"
proof (cases "indexOf xs b")
  case None
  then show ?thesis by (simp add: listMove_def)
next
  case (Some p)
  assume a: "a \<in> set xs"
  have s: "mset (take p (remove1 a xs)) + mset (drop p (remove1 a xs)) = mset (remove1 a xs)"
    by (metis append_take_drop_id mset_append)
  have "mset (take p (remove1 a xs) @ [a] @ drop p (remove1 a xs)) =
      (mset (take p (remove1 a xs)) + mset (drop p (remove1 a xs))) + {#a#}"
    by simp
  also have "\<dots> = mset (remove1 a xs) + {#a#}" by (simp only: s)
  also have "\<dots> = mset xs" using a by simp
  finally show ?thesis using Some by (simp add: listMove_def Let_def)
qed

lemma listMove_position:
  assumes "indexOf xs b = Some p" and "a \<in> set xs" and "a \<noteq> b"
  shows "p < length (listMove xs a b) \<and> listMove xs a b ! p = a"
proof -
  from indexOf_Some [OF assms(1)] have p: "p < length xs" by simp
  from assms(2) have "length (remove1 a xs) = length xs - 1" by (simp add: length_remove1)
  with p have le: "p \<le> length (remove1 a xs)" by simp
  then have "length (take p (remove1 a xs)) = p" by simp
  then have "(take p (remove1 a xs) @ [a] @ drop p (remove1 a xs)) ! p = a"
    by (metis append_Cons nth_append_length)
  moreover have "length (listMove xs a b) = length xs"
    using mset_listMove [OF assms(2), of b] by (metis size_mset)
  ultimately show ?thesis using assms(1) p by (simp add: listMove_def Let_def)
qed

lemma reorderWithin_indexOf:
  assumes D: "distinct (map t_id ts)"
    and A: "indexOf (map t_id (canonicalGroup ts (t_matrixId at) (t_urgency at))) a = Some old"
    and B: "indexOf (map t_id (canonicalGroup ts (t_matrixId at) (t_urgency at))) b = Some new"
  shows "reorderWithin ts a b at =
     applyOrders
       (indexOf (listMove (map t_id (canonicalGroup ts (t_matrixId at) (t_urgency at))) a b)) ts"
proof -
  let ?ids = "map t_id (canonicalGroup ts (t_matrixId at) (t_urgency at))"
  have ain: "a \<in> set ?ids" using indexOf_Some [OF A] by (metis nth_mem)
  have "distinct ?ids" using D by (rule canonical_ids_distinct)
  with mset_listMove [OF ain, of b] have dm: "distinct (listMove ?ids a b)"
    by (metis mset_eq_imp_distinct_iff)
  have "(\<lambda>i. setIndexed Map.empty (map Some (listMove ?ids a b)) 0 (Some i)) =
      indexOf (listMove ?ids a b)"
  proof
    fix i
    have "setIndexed Map.empty (map Some (listMove ?ids a b)) 0 (Some i) =
        setIndexed (\<lambda>y. Map.empty (Some y)) (listMove ?ids a b) 0 i"
      by (rule setIndexed_inj) simp
    then show "setIndexed Map.empty (map Some (listMove ?ids a b)) 0 (Some i) =
        indexOf (listMove ?ids a b) i"
      using setIndexed_indexOf [OF dm, of i] by simp
  qed
  then show ?thesis
    unfolding reorderWithin_def Let_def using A B by (simp add: arrayMove_listMove [OF A B])
qed

lemma live_iff: "live t \<longleftrightarrow> t_status t \<noteq> Archived \<and> t_status t \<noteq> Deleted"
  by (cases "t_status t") (simp_all add: live_def)

lemma getTaskById_Some: "getTaskById ts i = Some t \<Longrightarrow> t \<in> set ts \<and> t_id t = i"
  by (auto simp: getTaskById_def find_Some_iff)

lemma compareTasks_key:
  "(compareTasks a b \<le> 0 \<longleftrightarrow> (orderOr0 a, t_id a) \<le> (orderOr0 b, t_id b)) \<and>
   (compareTasks a b < 0 \<longleftrightarrow> (orderOr0 a, t_id a) < (orderOr0 b, t_id b))"
  by (auto simp: compareTasks_def Let_def)

lemma canonical_sorted:
  "sorted (map (\<lambda>t. (orderOr0 t, t_id t)) (canonicalGroup ts m u)) \<and>
   mset (canonicalGroup ts m u) = mset (filter (inScope m u) ts)"
  by (simp add: canonicalGroup_def)

lemma in_canonical_ids:
  "t \<in> set ts \<Longrightarrow> inScope m u t \<Longrightarrow>
   \<exists>i. indexOf (map t_id (canonicalGroup ts m u)) (t_id t) = Some i"
proof -
  assume "t \<in> set ts" "inScope m u t"
  then have "t_id t \<in> set (map t_id (canonicalGroup ts m u))"
    unfolding canonical_ids_set by simp
  then show ?thesis
    using indexOf_None [of "map t_id (canonicalGroup ts m u)" "t_id t"]
    by (cases "indexOf (map t_id (canonicalGroup ts m u)) (t_id t)") auto
qed

section \<open>Reorder within a quadrant\<close>

text \<open>
  C4, as the code has it. The reorder happens under the guards of the interpreter: the
  dragged task's matrix is selected and both tasks are live; task ids are pairwise
  different. Then the canonical list of the scope is the scope's live tasks sorted by
  (order, id); the new sequence of ids is that list with the dragged id taken out and
  put back at the position the target had; and the resulting task list gives every task
  whose id is in the new sequence its index there as \<^verbatim>\<open>order\<close> and leaves every other
  task as it was. The ids of the new sequence are those of the live tasks of the scope,
  so the scope ends with the orders \<open>0, \<dots>, n - 1\<close>.
\<close>

theorem reorder_within_scope:
  assumes D: "distinct (map t_id (tasks s))"
    and A: "getTaskById (tasks s) activeId = Some activeTask"
    and B: "getTaskById (tasks s) overId = Some overTask"
    and sel: "t_matrixId activeTask = Some mid" "mid \<in> set (selectedOf s)"
    and same: "t_matrixId overTask = Some mid" "t_urgency overTask = t_urgency activeTask"
    and ne: "activeId \<noteq> overId"
    and lv: "live activeTask" "live overTask"
  shows "let u = t_urgency activeTask;
             group = canonicalGroup (tasks s) (Some mid) u;
             moved = listMove (map t_id group) activeId overId
         in sorted (map (\<lambda>t. (orderOr0 t, t_id t)) group) \<and>
            mset group = mset (filter (inScope (Some mid) u) (tasks s)) \<and>
            mset moved = mset (map t_id group) \<and>
            (\<exists>p. indexOf (map t_id group) overId = Some p \<and> moved ! p = activeId) \<and>
            handleDragEnd s activeId (Some (OverTask overId)) =
              s\<lparr>tasks := applyOrders (indexOf moved) (tasks s)\<rparr> \<and>
            set moved = t_id ` set (filter (inScope (Some mid) u) (tasks s)) \<and>
            contiguous (tasks (handleDragEnd s activeId (Some (OverTask overId)))) (Some mid) u"
proof -
  let ?u = "t_urgency activeTask"
  let ?group = "canonicalGroup (tasks s) (Some mid) ?u"
  let ?ids = "map t_id ?group"
  from getTaskById_Some [OF A] have a: "activeTask \<in> set (tasks s)" "t_id activeTask = activeId"
    by simp_all
  from getTaskById_Some [OF B] have b: "overTask \<in> set (tasks s)" "t_id overTask = overId"
    by simp_all
  have sa: "inScope (Some mid) ?u activeTask" using sel lv by (simp add: inScope_def live_iff)
  have sb: "inScope (Some mid) ?u overTask" using same lv by (simp add: inScope_def live_iff)
  from in_canonical_ids [OF a(1) sa] a(2) obtain old where old: "indexOf ?ids activeId = Some old"
    by auto
  from in_canonical_ids [OF b(1) sb] b(2) obtain new where new: "indexOf ?ids overId = Some new"
    by auto
  have ain: "activeId \<in> set ?ids" using indexOf_Some [OF old] by (metis nth_mem)
  have r: "reorderWithin (tasks s) activeId overId activeTask =
      applyOrders (indexOf (listMove ?ids activeId overId)) (tasks s)"
    using reorderWithin_indexOf [OF D, of activeTask activeId old overId new] old new sel(1)
    by simp
  have h: "handleDragEnd s activeId (Some (OverTask overId)) =
      s\<lparr>tasks := reorderWithin (tasks s) activeId overId activeTask\<rparr>"
    using A B sel same ne by (simp add: handleDragEnd_def)
  have pos: "\<exists>p. indexOf ?ids overId = Some p \<and> listMove ?ids activeId overId ! p = activeId"
    using listMove_position [OF new ain ne] new by simp
  have ms: "mset (listMove ?ids activeId overId) = mset ?ids" using ain by (rule mset_listMove)
  have "distinct ?ids" using D by (rule canonical_ids_distinct)
  with ms have K: "distinct (listMove ?ids activeId overId)" by (metis mset_eq_imp_distinct_iff)
  from ms have "set (listMove ?ids activeId overId) = set ?ids" by (rule mset_eq_setD)
  then have S: "set (listMove ?ids activeId overId) =
      t_id ` set (filter (inScope (Some mid) ?u) (tasks s))"
    using canonical_ids_set [of "tasks s" "Some mid" ?u] by simp
  have ct: "contiguous (tasks (handleDragEnd s activeId (Some (OverTask overId)))) (Some mid) ?u"
    using applyOrders_contiguous [OF D K S] h r by simp
  show ?thesis
    unfolding Let_def
    using canonical_sorted [of "tasks s" "Some mid" ?u] ms pos h r S ct
    by simp
qed

lemma example_selected: "selectedOf exampleState = [''work'', ''personal'', ''goals'']"
  by (simp add: selectedOf_def selectedMatrixIds_def exampleState_def DEFAULT_MATRICES_def
      newSet_def setAdd_def Let_def)

lemma example_group:
  "canonicalGroup exampleTasks (Some ''work'') High =
     [mkTask 1 ''A'' ''work'' High NotDone 0, mkTask 2 ''B'' ''work'' High NotDone 1,
      mkTask 3 ''C'' ''work'' High Completed 2]"
  by (simp add: canonicalGroup_def exampleTasks_def mkTask_def inScope_def orderOr0_def)

theorem reorder_within_scope_witness:
  "listMove [1, 2, 3] 1 3 = [2, 3, 1 :: int] \<and>
   handleDragEnd exampleState 1 (Some (OverTask 3)) =
     exampleState\<lparr>tasks :=
       [mkTask 1 ''A'' ''work'' High NotDone 2,
        mkTask 2 ''B'' ''work'' High NotDone 0,
        mkTask 3 ''C'' ''work'' High Completed 1,
        mkTask 4 ''D'' ''personal'' High NotDone 0,
        mkTask 5 ''E'' ''work'' Medium Archived 0]\<rparr>"
proof -
  have D: "distinct (map t_id (tasks exampleState))"
    by (simp add: exampleState_def exampleTasks_def mkTask_def)
  have A: "getTaskById (tasks exampleState) 1 = Some (mkTask 1 ''A'' ''work'' High NotDone 0)"
    by (simp add: exampleState_def exampleTasks_def mkTask_def getTaskById_def)
  have B: "getTaskById (tasks exampleState) 3 = Some (mkTask 3 ''C'' ''work'' High Completed 2)"
    by (simp add: exampleState_def exampleTasks_def mkTask_def getTaskById_def)
  have s1: "t_matrixId (mkTask 1 ''A'' ''work'' High NotDone 0) = Some ''work''"
    by (simp add: mkTask_def)
  have s2: "''work'' \<in> set (selectedOf exampleState)" by (simp add: example_selected)
  have s3: "t_matrixId (mkTask 3 ''C'' ''work'' High Completed 2) = Some ''work''"
    by (simp add: mkTask_def)
  have s4: "t_urgency (mkTask 3 ''C'' ''work'' High Completed 2) =
      t_urgency (mkTask 1 ''A'' ''work'' High NotDone 0)"
    by (simp add: mkTask_def)
  have ne: "(1::int) \<noteq> 3" by simp
  have l1: "live (mkTask 1 ''A'' ''work'' High NotDone 0)" by (simp add: live_def mkTask_def)
  have l2: "live (mkTask 3 ''C'' ''work'' High Completed 2)" by (simp add: live_def mkTask_def)
  have u: "t_urgency (mkTask 1 ''A'' ''work'' High NotDone 0) = High" by (simp add: mkTask_def)
  have g: "canonicalGroup (tasks exampleState) (Some ''work'') High =
     [mkTask 1 ''A'' ''work'' High NotDone 0, mkTask 2 ''B'' ''work'' High NotDone 1,
      mkTask 3 ''C'' ''work'' High Completed 2]"
    using example_group by (simp add: exampleState_def)
  have ids: "map t_id [mkTask 1 ''A'' ''work'' High NotDone 0, mkTask 2 ''B'' ''work'' High NotDone 1,
      mkTask 3 ''C'' ''work'' High Completed 2] = [1, 2, 3]"
    by (simp add: mkTask_def)
  have mv: "listMove [1, 2, 3] 1 3 = [2, 3, 1 :: int]" by (simp add: listMove_def)
  have ap: "applyOrders (indexOf [2, 3, 1]) (tasks exampleState) =
       [mkTask 1 ''A'' ''work'' High NotDone 2,
        mkTask 2 ''B'' ''work'' High NotDone 0,
        mkTask 3 ''C'' ''work'' High Completed 1,
        mkTask 4 ''D'' ''personal'' High NotDone 0,
        mkTask 5 ''E'' ''work'' Medium Archived 0]"
    by (simp add: applyOrders_def exampleState_def exampleTasks_def mkTask_def)
  from reorder_within_scope [OF D A B s1 s2 s3 s4 ne l1 l2]
  have "handleDragEnd exampleState 1 (Some (OverTask 3)) =
      exampleState\<lparr>tasks := applyOrders (indexOf (listMove [1, 2, 3] 1 3)) (tasks exampleState)\<rparr>"
    unfolding Let_def u g ids by simp
  with mv ap show ?thesis by simp
qed

text \<open>
  The claim as stated fails without those conditions. With the matrix of A, B, C not
  selected, dragging A onto C changes nothing; dropping a task on an archived task of
  its quadrant changes nothing; and when two tasks of the quadrant share an id, both
  receive the same order.
\<close>

theorem reorder_guards_counterexample:
  "getTaskById (tasks unselectedState) 1 = Some (mkTask 1 ''A'' ''work'' High NotDone 0) \<and>
   getTaskById (tasks unselectedState) 3 = Some (mkTask 3 ''C'' ''work'' High Completed 2) \<and>
   handleDragEnd unselectedState 1 (Some (OverTask 3)) = unselectedState \<and>
   map t_order (tasks (handleDragEnd unselectedState 1 (Some (OverTask 3)))) =
     [Some 0, Some 1, Some 2, Some 0, Some 0] \<and>
   tasks (handleDragEnd archivedTargetState 1 (Some (OverTask 6))) =
     tasks archivedTargetState \<and>
   map t_order (tasks (handleDragEnd sharedIdGroupState 1 (Some (OverTask 3)))) =
     [Some 2, Some 2, Some 1]"
  by code_simp

section \<open>Order contiguity\<close>






















section \<open>The view order stays free of repetitions\<close>

text \<open>
  Every writer of the view order keeps it free of repetitions, and a successful import
  sets it to the pinned ids of the normalized matrix list, which are pairwise different.
\<close>

lemma changeFocus_view_distinct:
  "distinct (viewOrderIds s) \<Longrightarrow> distinct (viewOrderIds (changeFocus s nxt))"
  by (auto simp: changeFocus_def Let_def distinct_newSet split: option.splits)

lemma togglePinned_view_distinct:
  "distinct (viewOrderIds s) \<Longrightarrow> distinct (viewOrderIds (togglePinned s mid))"
  by (simp add: togglePinned_def Let_def)

lemma step_view_distinct:
  "distinct (viewOrderIds s) \<Longrightarrow> distinct (viewOrderIds (step s a))"
proof -
  assume d: "distinct (viewOrderIds s)"
  have h: "distinct (viewOrderIds (handle s a))"
  proof (cases a)
    case (AddTask now isoNow)
    with d show ?thesis by (simp add: addTask_def Let_def)
  next
    case (DragEnd activeId over)
    with d show ?thesis
      by (simp add: handleDragEnd_def split: option.splits over_id.splits)
  next
    case (MergeMatrixInto sourceId destId)
    with d show ?thesis by (simp add: mergeMatrixInto_def Let_def)
  next
    case (TogglePinned mid)
    with d show ?thesis by (simp add: togglePinned_view_distinct)
  next
    case (ChangeFocus nxt)
    with d show ?thesis by (simp add: changeFocus_view_distinct)
  qed (use d in \<open>simp_all add: setDraftText_def setDraftMatrix_def setDraftUrgency_def\<close>)
  then show ?thesis by (simp add: step_def draftEffect_def focusEffect_def)
qed

lemma run_view_distinct:
  "distinct (viewOrderIds s) \<Longrightarrow> distinct (viewOrderIds (run s acts))"
  unfolding run_def by (induction acts arbitrary: s) (simp_all add: step_view_distinct)

lemma import_view_distinct:
  "\<not> malformed inp \<Longrightarrow> distinct (viewOrderIds (importDataFromFile s inp))"
  by (auto simp: malformed_def importDataFromFile_def Let_def ensure_distinct distinct_map_filter
      split: file_input.splits parsed.splits option.splits)

lemma deleteMatrix_view_distinct:
  "distinct (viewOrderIds s) \<Longrightarrow>
   distinct (viewOrderIds (deleteMatrixArchiveTasks s matrixId isoNow))"
  by (simp add: deleteMatrixArchiveTasks_def Let_def)

end
